theory Spec2Isabelle
  imports Complex_Main
begin

section \<open>The break-even computation of generate_llm_comparison_chart.py\<close>

text \<open>
  The script samples a range of request volumes, evaluates a linear cost curve
  (\<open>cloud_cost\<close>) and an affine cost curve (\<open>self_hosted_cost\<close>) on every sample,
  and marks the sample at which the absolute difference of the two curves is least
  (\<open>break_even_idx\<close>, \<open>break_even_requests\<close>, \<open>break_even_cost\<close>). The numpy
  arrays of the script are lists here. The constants of the script (the sampled range,
  the two rates and the initial investment) are parameters of the definitions.

  The computation is modelled twice. The first model computes with real numbers: it is
  what lines 12 to 33 compute when no operation rounds, and \<open>script_break_even\<close>
  instantiates it with the values of the script. The second model, whose names end in
  \<open>64\<close>, computes with the float64 numbers of numpy: every multiplication, addition
  and subtraction rounds to the nearest representable number, overflows to an infinity
  or yields NaN as IEEE 754 binary64 arithmetic does, and \<open>np.argmin\<close> treats NaN as it
  does in numpy. The two models return the same sample whenever every operation of the
  run is exact (\<open>find_break_even64_exact\<close>); with rounding they differ.
\<close>

section \<open>The computation over the real numbers\<close>

subsection \<open>Errors\<close>

datatype py_error = ValueError | IndexError

subsection \<open>Library operations used by the script\<close>

text \<open>
  \<open>np.linspace(start, stop, num)\<close>: \<open>num\<close> evenly spaced samples, the step being
  \<open>(stop - start) / (num - 1)\<close>; with more than one sample the last one is set to
  \<open>stop\<close> itself. No sample for \<open>num = 0\<close>, the single sample \<open>start\<close> for
  \<open>num = 1\<close>.
\<close>

definition linspace :: "real \<Rightarrow> real \<Rightarrow> nat \<Rightarrow> real list" where
  "linspace start stop num =
     (if num = 0 then []
      else if num = 1 then [start]
      else map (\<lambda>i. start + real i * ((stop - start) / real (num - 1))) [0..<num - 1]
           @ [stop])"

text \<open>
  \<open>np.argmin\<close> on a one-dimensional array: one pass that keeps the least value seen
  so far and its index, replacing them only by a strictly smaller value, so that the
  first occurrence of the minimum is returned. An empty array raises \<open>ValueError\<close>.
\<close>

fun argmin_from :: "real \<Rightarrow> nat \<Rightarrow> nat \<Rightarrow> real list \<Rightarrow> nat" where
  "argmin_from mv mi i [] = mi"
| "argmin_from mv mi i (x # xs) =
     (if x < mv then argmin_from x i (Suc i) xs else argmin_from mv mi (Suc i) xs)"

fun argmin :: "real list \<Rightarrow> py_error + nat" where
  "argmin [] = Inl ValueError"
| "argmin (x # xs) = Inr (argmin_from x 0 1 xs)"

text \<open>Reading an array at a non-negative index; out of range raises \<open>IndexError\<close>.\<close>

definition getitem :: "real list \<Rightarrow> nat \<Rightarrow> py_error + real" where
  "getitem xs i = (if i < length xs then Inr (xs ! i) else Inl IndexError)"

text \<open>Elementwise subtraction and absolute value of arrays of one shape.\<close>

definition np_sub :: "real list \<Rightarrow> real list \<Rightarrow> real list" where
  "np_sub xs ys = map (\<lambda>(x, y). x - y) (zip xs ys)"

definition np_abs :: "real list \<Rightarrow> real list" where
  "np_abs xs = map abs xs"

subsection \<open>The cost curves\<close>

text \<open>\<open>cloud_cost = requests * 0.002\<close>, the rate being \<open>rateA\<close>.\<close>

definition cloud_cost :: "real \<Rightarrow> real list \<Rightarrow> real list" where
  "cloud_cost rateA requests = map (\<lambda>v. v * rateA) requests"

text \<open>
  \<open>self_hosted_cost = initial_investment + (requests * 0.0002)\<close>, the rate being
  \<open>rateB\<close> and the initial investment \<open>offsetB\<close>.
\<close>

definition self_hosted_cost :: "real \<Rightarrow> real \<Rightarrow> real list \<Rightarrow> real list" where
  "self_hosted_cost rateB initial_investment requests =
     map (\<lambda>v. initial_investment + v * rateB) requests"

subsection \<open>The break-even point\<close>

record break_even =
  break_even_idx :: nat
  break_even_requests :: real
  break_even_cost :: real

text \<open>
  Lines 31 to 33 of the script: the index of the least absolute difference of the two
  curves, the sample at that index and the cost of the linear curve at that index.
\<close>

definition find_break_even ::
  "real list \<Rightarrow> real \<Rightarrow> real \<Rightarrow> real \<Rightarrow> py_error + break_even" where
  "find_break_even requests rateA rateB initial_investment =
     (let cc = cloud_cost rateA requests;
          sc = self_hosted_cost rateB initial_investment requests
      in case argmin (np_abs (np_sub cc sc)) of
           Inl e \<Rightarrow> Inl e
         | Inr idx \<Rightarrow>
             (case getitem requests idx of
                Inl e \<Rightarrow> Inl e
              | Inr r \<Rightarrow>
                  (case getitem cc idx of
                     Inl e \<Rightarrow> Inl e
                   | Inr c \<Rightarrow>
                       Inr \<lparr>break_even_idx = idx, break_even_requests = r,
                            break_even_cost = c\<rparr>)))"

text \<open>The script itself: lines 12 to 33 with its constants.\<close>

definition script_requests :: "real list" where
  "script_requests = linspace 0 100000 1000"

definition script_break_even :: "py_error + break_even" where
  "script_break_even = find_break_even script_requests (2 / 1000) (2 / 10000) 10000"

text \<open>The absolute difference of the two curves at a volume.\<close>

definition gap :: "real \<Rightarrow> real \<Rightarrow> real \<Rightarrow> real \<Rightarrow> real" where
  "gap rateA rateB initial_investment v = \<bar>v * rateA - (initial_investment + v * rateB)\<bar>"

text \<open>
  The specification of the first minimum: \<open>i\<close> is an index of \<open>xs\<close>, no entry is
  below the entry at \<open>i\<close>, and every entry before \<open>i\<close> is strictly above it.
\<close>

definition first_min :: "real list \<Rightarrow> nat \<Rightarrow> bool" where
  "first_min xs i \<longleftrightarrow>
     i < length xs \<and> (\<forall>j < length xs. xs ! i \<le> xs ! j) \<and> (\<forall>j < i. xs ! i < xs ! j)"

section \<open>The computation over float64\<close>

subsection \<open>Float64 values and rounding\<close>

text \<open>
  A float64 value is a finite number, an infinity or NaN. A finite value is given by the
  real number it denotes; the two zeros of IEEE 754 are one value here (they compare
  equal, and nothing in the script tells them apart), and NaN has no payload.
\<close>

datatype f64 = Finite real | PInf | NInf | NaN

text \<open>A power of two with an integer exponent.\<close>

definition pow2 :: "int \<Rightarrow> real" where
  "pow2 e = (if 0 \<le> e then 2 ^ nat e else 1 / 2 ^ nat (- e))"

text \<open>
  The exponent \<open>e\<close> with \<open>2^e \<le> |x| < 2^(e+1)\<close>, for \<open>x\<close> other than zero.
\<close>

definition binade :: "real \<Rightarrow> int" where
  "binade x = \<lfloor>log 2 \<bar>x\<bar>\<rfloor>"

text \<open>Rounding to the nearest integer, a tie going to the even one.\<close>

definition rne :: "real \<Rightarrow> int" where
  "rne q = (let f = \<lfloor>q\<rfloor>; r = q - of_int f
            in if r < 1 / 2 then f
               else if 1 / 2 < r then f + 1
               else if even f then f else f + 1)"

text \<open>
  Rounding a real number to float64, to nearest and ties to even: the unit in the last
  place of a number in the binade \<open>e\<close> is \<open>2^(e - 52)\<close> (53 significant bits), the
  binade is not taken below \<open>-1022\<close> (subnormal numbers), and a result of magnitude
  \<open>2^1024\<close> or more is an infinity.
\<close>

definition round64 :: "real \<Rightarrow> f64" where
  "round64 x =
     (if x = 0 then Finite 0
      else let u = pow2 (max (binade x) (- 1022) - 52);
               y = of_int (rne (x / u)) * u
           in if 2 ^ 1024 \<le> \<bar>y\<bar> then (if 0 < x then PInf else NInf) else Finite y)"

subsection \<open>Float64 arithmetic\<close>

text \<open>
  Negation, absolute value, addition, subtraction, multiplication and the two comparisons
  of IEEE 754: NaN propagates, \<open>inf - inf\<close> and \<open>0 * inf\<close> are NaN, every comparison
  with NaN is false.
\<close>

fun f64_neg :: "f64 \<Rightarrow> f64" where
  "f64_neg (Finite x) = Finite (- x)"
| "f64_neg PInf = NInf"
| "f64_neg NInf = PInf"
| "f64_neg NaN = NaN"

fun f64_abs :: "f64 \<Rightarrow> f64" where
  "f64_abs (Finite x) = Finite \<bar>x\<bar>"
| "f64_abs PInf = PInf"
| "f64_abs NInf = PInf"
| "f64_abs NaN = NaN"

fun f64_sign :: "f64 \<Rightarrow> int" where
  "f64_sign (Finite x) = (if x < 0 then - 1 else if x = 0 then 0 else 1)"
| "f64_sign PInf = 1"
| "f64_sign NInf = - 1"
| "f64_sign NaN = 0"

fun f64_add :: "f64 \<Rightarrow> f64 \<Rightarrow> f64" where
  "f64_add NaN b = NaN"
| "f64_add a NaN = NaN"
| "f64_add (Finite x) (Finite y) = round64 (x + y)"
| "f64_add PInf NInf = NaN"
| "f64_add NInf PInf = NaN"
| "f64_add PInf b = PInf"
| "f64_add NInf b = NInf"
| "f64_add a PInf = PInf"
| "f64_add a NInf = NInf"

definition f64_sub :: "f64 \<Rightarrow> f64 \<Rightarrow> f64" where
  "f64_sub a b = f64_add a (f64_neg b)"

fun f64_mul :: "f64 \<Rightarrow> f64 \<Rightarrow> f64" where
  "f64_mul NaN b = NaN"
| "f64_mul a NaN = NaN"
| "f64_mul (Finite x) (Finite y) = round64 (x * y)"
| "f64_mul a b =
     (let s = f64_sign a * f64_sign b
      in if s = 0 then NaN else if 0 < s then PInf else NInf)"

fun f64_less :: "f64 \<Rightarrow> f64 \<Rightarrow> bool" where
  "f64_less NaN b = False"
| "f64_less a NaN = False"
| "f64_less (Finite x) (Finite y) = (x < y)"
| "f64_less a NInf = False"
| "f64_less NInf b = True"
| "f64_less PInf b = False"
| "f64_less a PInf = True"

fun f64_le :: "f64 \<Rightarrow> f64 \<Rightarrow> bool" where
  "f64_le NaN b = False"
| "f64_le a NaN = False"
| "f64_le (Finite x) (Finite y) = (x \<le> y)"
| "f64_le NInf b = True"
| "f64_le a PInf = True"
| "f64_le a NInf = False"
| "f64_le PInf b = False"

subsection \<open>Library operations on float64 arrays\<close>

text \<open>
  \<open>np.argmin\<close> on a one-dimensional float64 array: an empty array raises
  \<open>ValueError\<close>; a first entry that is NaN gives index 0; otherwise one pass keeps the
  least value seen so far and its index, replaces them by an entry \<open>x\<close> when
  \<open>mp \<le> x\<close> is false, that is when \<open>x\<close> is strictly smaller or NaN, and stops at
  the first NaN.
\<close>

fun argmin64_from :: "f64 \<Rightarrow> nat \<Rightarrow> nat \<Rightarrow> f64 list \<Rightarrow> nat" where
  "argmin64_from mp mi i [] = mi"
| "argmin64_from mp mi i (x # xs) =
     (if \<not> f64_le mp x
      then (if x = NaN then i else argmin64_from x i (Suc i) xs)
      else argmin64_from mp mi (Suc i) xs)"

fun argmin64 :: "f64 list \<Rightarrow> py_error + nat" where
  "argmin64 [] = Inl ValueError"
| "argmin64 (x # xs) = Inr (if x = NaN then 0 else argmin64_from x 0 1 xs)"

text \<open>Reading, elementwise subtraction and absolute value, as over the reals.\<close>

definition getitem64 :: "f64 list \<Rightarrow> nat \<Rightarrow> py_error + f64" where
  "getitem64 xs i = (if i < length xs then Inr (xs ! i) else Inl IndexError)"

definition np_sub64 :: "f64 list \<Rightarrow> f64 list \<Rightarrow> f64 list" where
  "np_sub64 xs ys = map (\<lambda>(x, y). f64_sub x y) (zip xs ys)"

definition np_abs64 :: "f64 list \<Rightarrow> f64 list" where
  "np_abs64 xs = map f64_abs xs"

subsection \<open>The cost curves and the break-even point over float64\<close>

text \<open>
  \<open>cloud_cost = requests * 0.002\<close> and
  \<open>self_hosted_cost = initial_investment + (requests * 0.0002)\<close>, each operation rounded.
\<close>

definition cloud_cost64 :: "f64 \<Rightarrow> f64 list \<Rightarrow> f64 list" where
  "cloud_cost64 rateA requests = map (\<lambda>v. f64_mul v rateA) requests"

definition self_hosted_cost64 :: "f64 \<Rightarrow> f64 \<Rightarrow> f64 list \<Rightarrow> f64 list" where
  "self_hosted_cost64 rateB initial_investment requests =
     map (\<lambda>v. f64_add initial_investment (f64_mul v rateB)) requests"

text \<open>Lines 31 to 33 of the script over float64.\<close>

record break_even64 =
  break_even_idx64 :: nat
  break_even_requests64 :: f64
  break_even_cost64 :: f64

definition find_break_even64 ::
  "f64 list \<Rightarrow> f64 \<Rightarrow> f64 \<Rightarrow> f64 \<Rightarrow> py_error + break_even64" where
  "find_break_even64 requests rateA rateB initial_investment =
     (let cc = cloud_cost64 rateA requests;
          sc = self_hosted_cost64 rateB initial_investment requests
      in case argmin64 (np_abs64 (np_sub64 cc sc)) of
           Inl e \<Rightarrow> Inl e
         | Inr idx \<Rightarrow>
             (case getitem64 requests idx of
                Inl e \<Rightarrow> Inl e
              | Inr r \<Rightarrow>
                  (case getitem64 cc idx of
                     Inl e \<Rightarrow> Inl e
                   | Inr c \<Rightarrow>
                       Inr \<lparr>break_even_idx64 = idx, break_even_requests64 = r,
                            break_even_cost64 = c\<rparr>)))"

text \<open>The computed absolute difference of the two curves at a volume.\<close>

definition gap64 :: "f64 \<Rightarrow> f64 \<Rightarrow> f64 \<Rightarrow> f64 \<Rightarrow> f64" where
  "gap64 rateA rateB initial_investment v =
     f64_abs (f64_sub (f64_mul v rateA) (f64_add initial_investment (f64_mul v rateB)))"

text \<open>
  The specification of \<open>np.argmin\<close>: the index of the first NaN if there is one, the
  index of the first least entry otherwise. \<open>run_min64\<close> is the invariant of its pass
  over a prefix without NaN.
\<close>

definition first_min64 :: "f64 list \<Rightarrow> nat \<Rightarrow> bool" where
  "first_min64 xs i \<longleftrightarrow>
     i < length xs \<and>
     (if NaN \<in> set xs then xs ! i = NaN \<and> (\<forall>j < i. xs ! j \<noteq> NaN)
      else (\<forall>j < length xs. f64_le (xs ! i) (xs ! j)) \<and>
           (\<forall>j < i. f64_less (xs ! i) (xs ! j)))"

definition run_min64 :: "f64 list \<Rightarrow> nat \<Rightarrow> bool" where
  "run_min64 ys mi \<longleftrightarrow>
     NaN \<notin> set ys \<and> mi < length ys \<and>
     (\<forall>j < length ys. f64_le (ys ! mi) (ys ! j)) \<and>
     (\<forall>j < mi. f64_less (ys ! mi) (ys ! j))"

subsection \<open>Runs without rounding\<close>






section \<open>The script as a sequence of assignments\<close>


















section \<open>The first minimum\<close>

lemma first_min_snoc_new:
  assumes "first_min ys mi" and "x < ys ! mi"
  shows "first_min (ys @ [x]) (length ys)"
  using assms unfolding first_min_def
  by (auto simp: nth_append less_Suc_eq intro: less_le_trans less_imp_le)

lemma first_min_snoc_keep:
  assumes "first_min ys mi" and "\<not> x < ys ! mi"
  shows "first_min (ys @ [x]) mi"
  using assms unfolding first_min_def
  by (auto simp: nth_append less_Suc_eq)

lemma argmin_from_first_min:
  "first_min ys mi \<Longrightarrow> first_min (ys @ xs) (argmin_from (ys ! mi) mi (length ys) xs)"
proof (induction xs arbitrary: ys mi)
  case Nil
  then show ?case by simp
next
  case (Cons x xs)
  show ?case
  proof (cases "x < ys ! mi")
    case True
    have "first_min (ys @ [x]) (length ys)"
      by (rule first_min_snoc_new [OF Cons.prems True])
    from Cons.IH [OF this] True show ?thesis by simp
  next
    case False
    have fm: "first_min (ys @ [x]) mi"
      by (rule first_min_snoc_keep [OF Cons.prems False])
    have "mi < length ys" using Cons.prems by (simp add: first_min_def)
    then have "(ys @ [x]) ! mi = ys ! mi" by (simp add: nth_append)
    with Cons.IH [OF fm] False show ?thesis by simp
  qed
qed

lemma argmin_first_min:
  "xs \<noteq> [] \<Longrightarrow> \<exists>i. argmin xs = Inr i \<and> first_min xs i"
proof (cases xs)
  case Nil
  assume "xs \<noteq> []"
  with Nil show ?thesis by simp
next
  case (Cons x xs')
  have "first_min [x] 0" by (simp add: first_min_def)
  from argmin_from_first_min [OF this, of xs'] Cons show ?thesis by simp
qed

lemma first_min_unique:
  "first_min xs i \<Longrightarrow> first_min xs j \<Longrightarrow> i = j"
  unfolding first_min_def
  by (metis linorder_neqE_nat not_less)

section \<open>The result of the break-even computation\<close>

lemma gaps_eq:
  "np_abs (np_sub (cloud_cost a rs) (self_hosted_cost b c rs)) = map (gap a b c) rs"
  by (induction rs)
     (simp_all add: np_abs_def np_sub_def cloud_cost_def self_hosted_cost_def gap_def)

lemma find_break_even_char:
  assumes "requests \<noteq> []"
  shows "\<exists>i. first_min (map (gap a b c) requests) i \<and>
           find_break_even requests a b c =
             Inr \<lparr>break_even_idx = i, break_even_requests = requests ! i,
                  break_even_cost = requests ! i * a\<rparr>"
proof -
  have ne: "map (gap a b c) requests \<noteq> []" using assms by simp
  from argmin_first_min [OF ne] obtain i where
    am: "argmin (map (gap a b c) requests) = Inr i" and
    fm: "first_min (map (gap a b c) requests) i" by blast
  from fm have lt: "i < length requests" by (simp add: first_min_def)
  have "find_break_even requests a b c =
          Inr \<lparr>break_even_idx = i, break_even_requests = requests ! i,
               break_even_cost = requests ! i * a\<rparr>"
  proof -
    have cc: "getitem (cloud_cost a requests) i = Inr (requests ! i * a)"
      using lt by (simp add: getitem_def cloud_cost_def)
    have rq: "getitem requests i = Inr (requests ! i)"
      using lt by (simp add: getitem_def)
    show ?thesis
      by (simp add: find_break_even_def Let_def gaps_eq am cc rq)
  qed
  with fm show ?thesis by blast
qed

lemma find_break_even_at:
  assumes "first_min (map (gap a b c) requests) i"
  shows "find_break_even requests a b c =
           Inr \<lparr>break_even_idx = i, break_even_requests = requests ! i,
                break_even_cost = requests ! i * a\<rparr>"
proof -
  from assms have "requests \<noteq> []" by (auto simp: first_min_def)
  from find_break_even_char [OF this, of a b c] obtain k where
    fk: "first_min (map (gap a b c) requests) k" and
    res: "find_break_even requests a b c =
            Inr \<lparr>break_even_idx = k, break_even_requests = requests ! k,
                 break_even_cost = requests ! k * a\<rparr>" by blast
  from first_min_unique [OF fk assms] res show ?thesis by simp
qed

lemma nth_costs:
  assumes "j < length requests"
  shows "cloud_cost a requests ! j = requests ! j * a"
    and "self_hosted_cost b c requests ! j = c + requests ! j * b"
  using assms by (simp_all add: cloud_cost_def self_hosted_cost_def)

lemma first_min_gapD:
  assumes "first_min (map (gap a b c) requests) i"
  shows "i < length requests"
    and "\<And>j. j < length requests \<Longrightarrow> gap a b c (requests ! i) \<le> gap a b c (requests ! j)"
    and "\<And>j. j < i \<Longrightarrow> gap a b c (requests ! i) < gap a b c (requests ! j)"
proof -
  show lt: "i < length requests" using assms by (simp add: first_min_def)
  show "gap a b c (requests ! i) \<le> gap a b c (requests ! j)" if "j < length requests" for j
    using assms that lt by (auto simp: first_min_def)
  show "gap a b c (requests ! i) < gap a b c (requests ! j)" if "j < i" for j
  proof -
    from that lt have "j < length requests" by simp
    with assms that lt show ?thesis by (auto simp: first_min_def)
  qed
qed


section \<open>Evenly spaced samples\<close>

lemma length_linspace: "length (linspace start stop num) = num"
  by (simp add: linspace_def)

lemma linspace_nth:
  assumes "2 \<le> num" and "i < num"
  shows "linspace start stop num ! i = start + real i * ((stop - start) / real (num - 1))"
proof (cases "i < num - 1")
  case True
  with assms show ?thesis by (simp add: linspace_def nth_append)
next
  case False
  with assms have i: "i = num - 1" by simp
  have "real (num - 1) \<noteq> 0" using assms(1) by simp
  then have "start + real (num - 1) * ((stop - start) / real (num - 1)) = stop" by simp
  with assms i show ?thesis by (simp add: linspace_def nth_append)
qed

section \<open>The configuration of the script\<close>

lemma script_requests_nth:
  "i < 1000 \<Longrightarrow> script_requests ! i = real i * (100000 / 999)"
  using linspace_nth [of 1000 i 0 100000] by (simp add: script_requests_def)

lemma length_script_requests: "length script_requests = 1000"
  by (simp add: script_requests_def length_linspace)

lemma script_requests_le: "i < 1000 \<Longrightarrow> script_requests ! i \<le> 100000"
proof -
  assume i: "i < 1000"
  then have "real i \<le> 999" by simp
  then have "real i * (100000 / 999) \<le> 999 * (100000 / 999)"
    by (rule mult_right_mono) simp
  with i show ?thesis by (simp add: script_requests_nth)
qed

lemma script_gap:
  assumes "i < 1000"
  shows "gap (2 / 1000) (2 / 10000) 10000 (script_requests ! i)
         = 10000 - real i * (18000 / 99900)"
proof -
  have "script_requests ! i \<le> 100000" by (rule script_requests_le [OF assms])
  then have "gap (2 / 1000) (2 / 10000) 10000 (script_requests ! i)
             = 10000 - script_requests ! i * (18 / 10000)"
    by (simp add: gap_def)
  then show ?thesis by (simp add: script_requests_nth [OF assms])
qed

lemma script_first_min:
  "first_min (map (gap (2 / 1000) (2 / 10000) 10000) script_requests) 999"
proof -
  have le: "gap (2 / 1000) (2 / 10000) 10000 (script_requests ! 999)
            \<le> gap (2 / 1000) (2 / 10000) 10000 (script_requests ! j)" if "j < 1000" for j
  proof -
    from that have "real j \<le> 999" by simp
    then show ?thesis using script_gap [OF that] script_gap [of 999] by simp
  qed
  have lt: "gap (2 / 1000) (2 / 10000) 10000 (script_requests ! 999)
            < gap (2 / 1000) (2 / 10000) 10000 (script_requests ! j)" if "j < 999" for j
  proof -
    from that have "real j < 999" and "j < 1000" by simp_all
    then show ?thesis using script_gap [of j] script_gap [of 999] by simp
  qed
  show ?thesis
    unfolding first_min_def using le lt by (simp add: length_script_requests)
qed

lemma script_result:
  "script_break_even =
     Inr \<lparr>break_even_idx = 999, break_even_requests = 100000, break_even_cost = 200\<rparr>"
  using find_break_even_at [OF script_first_min]
  by (simp add: script_break_even_def script_requests_nth)

section \<open>Sampling the range from 0 to 10\<close>

lemma integers_result:
  "find_break_even [0, 1, 2, 3, 4, 5, 6, 7, 8, 9, 10] 1 (1 / 10) 5 =
     Inr \<lparr>break_even_idx = 6, break_even_requests = 6, break_even_cost = 6\<rparr>"
  by (simp add: find_break_even_def Let_def np_abs_def np_sub_def cloud_cost_def
      self_hosted_cost_def getitem_def)

lemma near_sample:
  assumes "2 \<le> n"
  shows "\<exists>k < n. gap 1 (1 / 10) 5 (linspace 0 10 n ! k) \<le> 9 / (2 * real (n - 1))"
proof -
  define m where "m = n - 1"
  have m1: "1 \<le> real m" using assms by (simp add: m_def)
  define y where "y = 5 * real m / 9 + 1 / 2"
  define k where "k = nat \<lfloor>y\<rfloor>"
  have y0: "0 \<le> y" using m1 by (simp add: y_def)
  then have fl0: "0 \<le> \<lfloor>y\<rfloor>" by simp
  have klo: "real k \<le> y"
    using fl0 by (simp add: k_def of_nat_nat)
  have khi: "y < real k + 1"
    using fl0 by (simp add: k_def of_nat_nat)
  have "real k < real m + 1" using klo m1 by (simp add: y_def)
  then have km: "k \<le> m" by linarith
  then have kn: "k < n" using assms by (simp add: m_def)
  have close: "\<bar>real k - 5 * real m / 9\<bar> \<le> 1 / 2"
    using klo khi unfolding y_def by linarith
  have mpos: "0 < real m" using m1 by simp
  have v: "linspace 0 10 n ! k = real k * (10 / real m)"
    using linspace_nth [OF assms kn, of 0 10] by (simp add: m_def)
  have inner: "real k * (10 / real m) * 1 - (5 + real k * (10 / real m) * (1 / 10))
               = (9 / real m) * (real k - 5 * real m / 9)"
    using mpos by (simp add: field_simps)
  have g1: "gap 1 (1 / 10) 5 (linspace 0 10 n ! k) = \<bar>(9 / real m) * (real k - 5 * real m / 9)\<bar>"
    unfolding gap_def v inner ..
  have c0: "0 \<le> 9 / real m" using mpos by simp
  have g2: "\<bar>(9 / real m) * (real k - 5 * real m / 9)\<bar>
            = (9 / real m) * \<bar>real k - 5 * real m / 9\<bar>"
    using c0 by (simp only: abs_mult abs_of_nonneg)
  have g3: "(9 / real m) * \<bar>real k - 5 * real m / 9\<bar> \<le> (9 / real m) * (1 / 2)"
    by (rule mult_left_mono [OF close c0])
  have g4: "(9 / real m) * (1 / 2) = 9 / (2 * real (n - 1))" by (simp add: m_def)
  have "gap 1 (1 / 10) 5 (linspace 0 10 n ! k) \<le> 9 / (2 * real (n - 1))"
    using g3 unfolding g1 g2 g4 .
  then show ?thesis using kn by blast
qed

lemma linspace_gap_bound:
  assumes "2 \<le> n"
  shows "\<exists>r. find_break_even (linspace 0 10 n) 1 (1 / 10) 5 = Inr r \<and>
           gap 1 (1 / 10) 5 (break_even_requests r) \<le> 9 / (2 * real (n - 1))"
proof -
  have ne: "linspace 0 10 n \<noteq> []" using assms by (simp add: linspace_def)
  from find_break_even_char [OF ne, of 1 "1 / 10" 5] obtain i where
    fm: "first_min (map (gap 1 (1 / 10) 5) (linspace 0 10 n)) i" and
    res: "find_break_even (linspace 0 10 n) 1 (1 / 10) 5 =
            Inr \<lparr>break_even_idx = i, break_even_requests = linspace 0 10 n ! i,
                 break_even_cost = linspace 0 10 n ! i * 1\<rparr>" by blast
  note D = first_min_gapD [OF fm]
  from near_sample [OF assms] obtain k where
    k: "k < n" "gap 1 (1 / 10) 5 (linspace 0 10 n ! k) \<le> 9 / (2 * real (n - 1))" by blast
  from k(1) have "k < length (linspace 0 10 n)" by (simp add: length_linspace)
  from D(2) [OF this] k(2)
  have "gap 1 (1 / 10) 5 (linspace 0 10 n ! i) \<le> 9 / (2 * real (n - 1))"
    by (rule order_trans)
  with res show ?thesis by simp
qed

lemma linspace_gap_small:
  assumes "0 < e"
  shows "\<exists>N. \<forall>n \<ge> N. \<exists>r. find_break_even (linspace 0 10 n) 1 (1 / 10) 5 = Inr r \<and>
           gap 1 (1 / 10) 5 (break_even_requests r) < e"
proof -
  define N where "N = nat \<lceil>9 / (2 * e)\<rceil> + 2"
  have "\<exists>r. find_break_even (linspace 0 10 n) 1 (1 / 10) 5 = Inr r \<and>
           gap 1 (1 / 10) 5 (break_even_requests r) < e" if "N \<le> n" for n
  proof -
    from that have n2: "2 \<le> n" by (simp add: N_def)
    have "9 / (2 * e) \<le> real_of_int \<lceil>9 / (2 * e)\<rceil>" by (rule le_of_int_ceiling)
    also have "\<dots> \<le> real (nat \<lceil>9 / (2 * e)\<rceil>)" by simp
    also have "\<dots> < real (n - 1)" using that by (simp add: N_def)
    finally have big: "9 / (2 * e) < real (n - 1)" .
    have pos: "0 < real (n - 1)" using n2 by simp
    from big assms pos have "9 < real (n - 1) * (2 * e)"
      by (simp add: field_simps)
    then have small: "9 / (2 * real (n - 1)) < e"
      using pos by (simp add: field_simps)
    from linspace_gap_bound [OF n2] obtain r where
      "find_break_even (linspace 0 10 n) 1 (1 / 10) 5 = Inr r"
      "gap 1 (1 / 10) 5 (break_even_requests r) \<le> 9 / (2 * real (n - 1))" by blast
    with small show ?thesis by force
  qed
  then show ?thesis by blast
qed


section \<open>Properties of the computation over the reals\<close>





section \<open>The first minimum over float64\<close>

lemma f64_le_refl: "a \<noteq> NaN \<Longrightarrow> f64_le a a"
  by (cases a) simp_all

lemma f64_not_le: "a \<noteq> NaN \<Longrightarrow> b \<noteq> NaN \<Longrightarrow> \<not> f64_le a b \<longleftrightarrow> f64_less b a"
  by (cases a; cases b) auto

lemma f64_less_le_trans: "f64_less a b \<Longrightarrow> f64_le b c \<Longrightarrow> f64_less a c"
  by (cases a; cases b; cases c) auto

lemma f64_le_trans: "f64_le a b \<Longrightarrow> f64_le b c \<Longrightarrow> f64_le a c"
  by (cases a; cases b; cases c) auto

lemma f64_less_imp_le: "f64_less a b \<Longrightarrow> f64_le a b"
  by (cases a; cases b) auto

lemma f64_less_irrefl: "\<not> f64_less a a"
  by (cases a) auto

lemma f64_less_neq: "f64_less x y \<Longrightarrow> x \<noteq> y"
  using f64_less_irrefl by auto

lemma f64_less_asym: "f64_less x y \<Longrightarrow> \<not> f64_less y x"
  by (cases x; cases y) auto

lemma run_min64_snoc_new:
  assumes "run_min64 ys mi" and "x \<noteq> NaN" and "\<not> f64_le (ys ! mi) x"
  shows "run_min64 (ys @ [x]) (length ys)"
proof -
  from assms(1) have nn: "NaN \<notin> set ys" and lt: "mi < length ys"
    and le: "\<And>j. j < length ys \<Longrightarrow> f64_le (ys ! mi) (ys ! j)"
    by (auto simp: run_min64_def)
  from nn lt have "ys ! mi \<noteq> NaN" by (metis nth_mem)
  with assms(2,3) have less: "f64_less x (ys ! mi)" by (simp add: f64_not_le)
  have "f64_less x (ys ! j)" if "j < length ys" for j
    by (rule f64_less_le_trans [OF less le [OF that]])
  then show ?thesis
    using nn assms(2) f64_le_refl [OF assms(2)]
    by (auto simp: run_min64_def nth_append less_Suc_eq f64_less_imp_le)
qed

lemma run_min64_snoc_keep:
  assumes "run_min64 ys mi" and "f64_le (ys ! mi) x"
  shows "run_min64 (ys @ [x]) mi"
proof -
  from assms(2) have "x \<noteq> NaN" by (cases "ys ! mi"; cases x) auto
  with assms show ?thesis
    by (auto simp: run_min64_def nth_append less_Suc_eq)
qed

lemma run_min64_first_min64: "run_min64 ys mi \<Longrightarrow> first_min64 ys mi"
  by (simp add: run_min64_def first_min64_def)

lemma argmin64_from_first_min64:
  "run_min64 ys mi \<Longrightarrow>
   first_min64 (ys @ xs) (argmin64_from (ys ! mi) mi (length ys) xs)"
proof (induction xs arbitrary: ys mi)
  case Nil
  then show ?case by (simp add: run_min64_first_min64)
next
  case (Cons x xs)
  show ?case
  proof (cases "f64_le (ys ! mi) x")
    case True
    have rm: "run_min64 (ys @ [x]) mi"
      by (rule run_min64_snoc_keep [OF Cons.prems True])
    have "mi < length ys" using Cons.prems by (simp add: run_min64_def)
    then have "(ys @ [x]) ! mi = ys ! mi" by (simp add: nth_append)
    with Cons.IH [OF rm] True show ?thesis by simp
  next
    case False
    show ?thesis
    proof (cases "x = NaN")
      case True
      have "NaN \<notin> set ys" using Cons.prems by (simp add: run_min64_def)
      then have "\<forall>j < length ys. ys ! j \<noteq> NaN" by (metis nth_mem)
      with True False show ?thesis
        by (simp add: first_min64_def nth_append)
    next
      case xn: False
      have "run_min64 (ys @ [x]) (length ys)"
        by (rule run_min64_snoc_new [OF Cons.prems xn False])
      from Cons.IH [OF this] xn False show ?thesis by simp
    qed
  qed
qed

lemma argmin64_first_min64:
  "xs \<noteq> [] \<Longrightarrow> \<exists>i. argmin64 xs = Inr i \<and> first_min64 xs i"
proof (cases xs)
  case Nil
  assume "xs \<noteq> []"
  with Nil show ?thesis by simp
next
  case (Cons x xs')
  show ?thesis
  proof (cases "x = NaN")
    case True
    with Cons show ?thesis by (simp add: first_min64_def)
  next
    case False
    then have "run_min64 [x] 0" by (simp add: run_min64_def f64_le_refl)
    from argmin64_from_first_min64 [OF this, of xs'] Cons False show ?thesis by simp
  qed
qed

lemma first_min64_unique:
  assumes "first_min64 xs i" and "first_min64 xs j"
  shows "i = j"
proof (cases "NaN \<in> set xs")
  case True
  with assms show ?thesis
    unfolding first_min64_def by (metis linorder_neqE_nat)
next
  case False
  with assms have a: "i < length xs" "j < length xs"
    "f64_le (xs ! i) (xs ! j)" "f64_le (xs ! j) (xs ! i)"
    "\<forall>k < i. f64_less (xs ! i) (xs ! k)" "\<forall>k < j. f64_less (xs ! j) (xs ! k)"
    by (auto simp: first_min64_def)
  show ?thesis
  proof (rule ccontr)
    assume "i \<noteq> j"
    then consider "i < j" | "j < i" by linarith
    then show False
    proof cases
      case 1
      with a(6) have "f64_less (xs ! j) (xs ! i)" by simp
      from f64_less_le_trans [OF this a(3)] show False by (simp add: f64_less_irrefl)
    next
      case 2
      with a(5) have "f64_less (xs ! i) (xs ! j)" by simp
      from f64_less_le_trans [OF this a(4)] show False by (simp add: f64_less_irrefl)
    qed
  qed
qed

lemma gaps64_eq:
  "np_abs64 (np_sub64 (cloud_cost64 a rs) (self_hosted_cost64 b c rs)) = map (gap64 a b c) rs"
  by (induction rs)
     (simp_all add: np_abs64_def np_sub64_def cloud_cost64_def self_hosted_cost64_def gap64_def)

lemma find_break_even64_char:
  assumes "requests \<noteq> []"
  shows "\<exists>i. first_min64 (map (gap64 a b c) requests) i \<and>
           find_break_even64 requests a b c =
             Inr \<lparr>break_even_idx64 = i, break_even_requests64 = requests ! i,
                  break_even_cost64 = f64_mul (requests ! i) a\<rparr>"
proof -
  have ne: "map (gap64 a b c) requests \<noteq> []" using assms by simp
  from argmin64_first_min64 [OF ne] obtain i where
    am: "argmin64 (map (gap64 a b c) requests) = Inr i" and
    fm: "first_min64 (map (gap64 a b c) requests) i" by blast
  from fm have lt: "i < length requests" by (simp add: first_min64_def)
  have cc: "getitem64 (cloud_cost64 a requests) i = Inr (f64_mul (requests ! i) a)"
    using lt by (simp add: getitem64_def cloud_cost64_def)
  have rq: "getitem64 requests i = Inr (requests ! i)"
    using lt by (simp add: getitem64_def)
  have "find_break_even64 requests a b c =
          Inr \<lparr>break_even_idx64 = i, break_even_requests64 = requests ! i,
               break_even_cost64 = f64_mul (requests ! i) a\<rparr>"
    by (simp add: find_break_even64_def Let_def gaps64_eq am cc rq)
  with fm show ?thesis by blast
qed

lemma find_break_even64_at:
  assumes "first_min64 (map (gap64 a b c) requests) i"
  shows "find_break_even64 requests a b c =
           Inr \<lparr>break_even_idx64 = i, break_even_requests64 = requests ! i,
                break_even_cost64 = f64_mul (requests ! i) a\<rparr>"
proof -
  from assms have "requests \<noteq> []" by (auto simp: first_min64_def)
  from find_break_even64_char [OF this, of a b c] obtain k where
    fk: "first_min64 (map (gap64 a b c) requests) k" and
    res: "find_break_even64 requests a b c =
            Inr \<lparr>break_even_idx64 = k, break_even_requests64 = requests ! k,
                 break_even_cost64 = f64_mul (requests ! k) a\<rparr>" by blast
  from first_min64_unique [OF fk assms] res show ?thesis by simp
qed


lemma nth_costs64:
  assumes "j < length requests"
  shows "cloud_cost64 a requests ! j = f64_mul (requests ! j) a"
    and "self_hosted_cost64 b c requests ! j = f64_add c (f64_mul (requests ! j) b)"
  using assms by (simp_all add: cloud_cost64_def self_hosted_cost64_def)





section \<open>Rounding\<close>

lemma pow2_pos: "0 < pow2 e"
  by (simp add: pow2_def)

lemma pow2_nonpos: "e \<le> 0 \<Longrightarrow> pow2 e = 1 / 2 ^ nat (- e)"
  by (simp add: pow2_def)

lemma pow2_nat: "pow2 (int k) = 2 ^ k"
  by (simp add: pow2_def)

lemma pow2_powr: "pow2 e = 2 powr (of_int e)"
proof (cases "0 \<le> e")
  case True
  then have "of_int e = real (nat e)" by simp
  then have "2 powr (of_int e) = (2 :: real) ^ nat e"
    by (simp only: powr_realpow zero_less_numeral)
  with True show ?thesis by (simp add: pow2_def)
next
  case False
  then have "of_int e = - real (nat (- e))" by simp
  then have "2 powr (of_int e) = inverse ((2 :: real) powr real (nat (- e)))"
    by (simp only: powr_minus)
  also have "\<dots> = inverse (2 ^ nat (- e))"
    by (simp only: powr_realpow zero_less_numeral)
  finally show ?thesis using False by (simp add: pow2_def inverse_eq_divide)
qed

lemma binade_eqI:
  assumes "x \<noteq> 0" and "pow2 b \<le> \<bar>x\<bar>" and "\<bar>x\<bar> < pow2 (b + 1)"
  shows "binade x = b"
proof -
  have pos: "0 < \<bar>x\<bar>" using assms(1) by simp
  have "2 powr (of_int b) \<le> \<bar>x\<bar>" using assms(2) by (simp add: pow2_powr)
  moreover have "\<bar>x\<bar> < 2 powr (of_int b + 1)" using assms(3) by (simp add: pow2_powr)
  ultimately show ?thesis
    unfolding binade_def using floor_log_eq_powr_iff [OF pos, of 2 b] by simp
qed

lemma rne_of_int: "rne (of_int k) = k"
  by (simp add: rne_def)

lemma round64_big:
  assumes "52 \<le> k" and "2 ^ k \<le> \<bar>x\<bar>" and "\<bar>x\<bar> < 2 ^ Suc k"
  shows "round64 x =
           (let u = 2 ^ (k - 52); y = of_int (rne (x / u)) * u
            in if 2 ^ 1024 \<le> \<bar>y\<bar> then (if 0 < x then PInf else NInf) else Finite y)"
proof -
  have "(0 :: real) < 2 ^ k" by simp
  with assms(2) have "0 < \<bar>x\<bar>" by linarith
  then have nz: "x \<noteq> 0" by simp
  have b: "binade x = int k"
  proof (rule binade_eqI [OF nz])
    show "pow2 (int k) \<le> \<bar>x\<bar>" using assms(2) by (simp add: pow2_nat)
    have "int k + 1 = int (Suc k)" by simp
    then show "\<bar>x\<bar> < pow2 (int k + 1)" using assms(3) by (simp only: pow2_nat)
  qed
  have "max (int k) (- 1022) - 52 = int (k - 52)" using assms(1) by simp
  then have u: "pow2 (max (binade x) (- 1022) - 52) = 2 ^ (k - 52)"
    by (simp only: b pow2_nat)
  show ?thesis unfolding round64_def u using nz by (simp add: Let_def)
qed

lemma round64_at:
  assumes "pow2 b \<le> \<bar>x\<bar>" and "\<bar>x\<bar> < pow2 (b + 1)" and "- 1022 \<le> b"
  shows "round64 x =
           (let u = pow2 (b - 52); y = of_int (rne (x / u)) * u
            in if 2 ^ 1024 \<le> \<bar>y\<bar> then (if 0 < x then PInf else NInf) else Finite y)"
proof -
  have "0 < \<bar>x\<bar>" using pow2_pos [of b] assms(1) by linarith
  then have nz: "x \<noteq> 0" by simp
  have b: "binade x = b" by (rule binade_eqI [OF nz assms(1,2)])
  have "max b (- 1022) - 52 = b - 52" using assms(3) by simp
  then show ?thesis unfolding round64_def b using nz by (simp add: Let_def)
qed

lemma round64_int:
  assumes "x \<in> \<int>" and "\<bar>x\<bar> < 2 ^ 53"
  shows "round64 x = Finite x"
proof (cases "x = 0")
  case True
  then show ?thesis by (simp add: round64_def)
next
  case False
  from assms(1) obtain m where m: "x = of_int m" by (rule Ints_cases)
  with False have "m \<noteq> 0" by auto
  then have "1 \<le> \<bar>real_of_int m\<bar>" by (simp add: abs_if)
  then have one: "1 \<le> \<bar>x\<bar>" by (simp add: m)
  define b where "b = binade x"
  have pos: "0 < \<bar>x\<bar>" using False by simp
  from floor_log_eq_powr_iff [OF pos, of 2 b]
  have bnd: "2 powr (of_int b) \<le> \<bar>x\<bar>" "\<bar>x\<bar> < 2 powr (of_int b + 1)"
    by (simp_all add: b_def binade_def)
  have b0: "0 \<le> b"
  proof (rule ccontr)
    assume "\<not> 0 \<le> b"
    then have "real_of_int b + 1 \<le> 0" by linarith
    then have "(2 :: real) powr (of_int b + 1) \<le> 2 powr 0"
      by (simp only: powr_le_cancel_iff one_less_numeral_iff semiring_norm)
    with bnd(2) one show False by simp
  qed
  have b52: "b \<le> 52"
  proof (rule ccontr)
    assume "\<not> b \<le> 52"
    then have "53 \<le> real_of_int b" by linarith
    then have "(2 :: real) powr 53 \<le> 2 powr (of_int b)"
      by (simp only: powr_le_cancel_iff one_less_numeral_iff semiring_norm)
    moreover have "(2 :: real) powr 53 = 2 ^ 53" by simp
    ultimately show False using bnd(1) assms(2) by linarith
  qed
  define n where "n = nat (52 - b)"
  have e: "max (binade x) (- 1022) - 52 = b - 52" using b0 by (simp add: b_def)
  have u: "pow2 (b - 52) = 1 / 2 ^ n"
    using b52 pow2_nonpos [of "b - 52"] by (simp add: n_def)
  have q: "x / (1 / 2 ^ n) = of_int (m * 2 ^ n)" by (simp add: m)
  have y: "of_int (rne (x / (1 / 2 ^ n))) * (1 / 2 ^ n) = x"
    unfolding q rne_of_int by (simp add: m)
  have "\<not> 2 ^ 1024 \<le> \<bar>x\<bar>" using assms(2) by simp
  then show ?thesis
    unfolding round64_def e u Let_def y using False by simp
qed


lemma round64_absorb:
  "round64 (2 ^ 60) = Finite (2 ^ 60)"
  "round64 (2 ^ 60 + 1) = Finite (2 ^ 60)"
  "round64 (2 ^ 60 + 2) = Finite (2 ^ 60)"
  "round64 (- (2 ^ 60)) = Finite (- (2 ^ 60))"
  "round64 (2 - 2 ^ 60) = Finite (- (2 ^ 60))"
  "round64 (4 - 2 ^ 60) = Finite (- (2 ^ 60))"
  using round64_big [of 60 "2 ^ 60"] round64_big [of 60 "2 ^ 60 + 1"]
    round64_big [of 60 "2 ^ 60 + 2"] round64_big [of 60 "- (2 ^ 60)"]
    round64_big [of 59 "2 - 2 ^ 60"] round64_big [of 59 "4 - 2 ^ 60"]
  by (simp_all add: rne_def Let_def)

lemma round64_overflow:
  "round64 (2 ^ 1023 * 4) = PInf"
  "round64 (2 ^ 1023) = Finite (2 ^ 1023)"
  using round64_big [of 1025 "2 ^ 1023 * 4"] round64_big [of 1023 "2 ^ 1023"]
  by (simp_all add: rne_def Let_def)

lemma tenths_rounding:
  "round64 (3602879701896397 / 2 ^ 55) = Finite (3602879701896397 / 2 ^ 55)"
  "round64 (14411518807585587 / 2 ^ 55) = Finite (3602879701896397 / 2 ^ 53)"
  "round64 (- (10808639105689191 / 2 ^ 55)) = Finite (- (1351079888211149 / 2 ^ 52))"
  "round64 (3602879701896397 / 2 ^ 54) = Finite (3602879701896397 / 2 ^ 54)"
  "round64 (1 / 2 ^ 1) = Finite (1 / 2 ^ 1)"
  "round64 (- (5404319552844595 / 2 ^ 54)) = Finite (- (5404319552844595 / 2 ^ 54))"
  "round64 (10808639105689191 / 2 ^ 55) = Finite (1351079888211149 / 2 ^ 52)"
  "round64 (10808639105689191 / 2 ^ 54) = Finite (1351079888211149 / 2 ^ 51)"
  "round64 (- (1351079888211149 / 2 ^ 52)) = Finite (- (1351079888211149 / 2 ^ 52))"
  using round64_at [of "- 4" "3602879701896397 / 2 ^ 55"]
    round64_at [of "- 2" "14411518807585587 / 2 ^ 55"]
    round64_at [of "- 2" "- (10808639105689191 / 2 ^ 55)"]
    round64_at [of "- 3" "3602879701896397 / 2 ^ 54"]
    round64_at [of "- 1" "1 / 2 ^ 1"]
    round64_at [of "- 2" "- (5404319552844595 / 2 ^ 54)"]
    round64_at [of "- 2" "10808639105689191 / 2 ^ 55"]
    round64_at [of "- 1" "10808639105689191 / 2 ^ 54"]
    round64_at [of "- 2" "- (1351079888211149 / 2 ^ 52)"]
  by (simp_all add: rne_def Let_def pow2_def)

lemmas eval64 = find_break_even64_def Let_def np_abs64_def np_sub64_def cloud_cost64_def
  self_hosted_cost64_def getitem64_def f64_sub_def round64_int

section \<open>Runs without rounding return the sample of the computation over the reals\<close>











section \<open>The run of the script\<close>


section \<open>Two runs with rounding\<close>

text \<open>
  The float64 numbers nearest 0.1 and 0.3 are \<open>3602879701896397 / 2^55\<close> and
  \<open>5404319552844595 / 2^54\<close>. On the samples 1, 2, 3 with both rates 0.1 and offset 0.3
  the computed absolute differences are 0.30000000000000004, 0.3 and
  0.30000000000000004, and the second sample is returned.
\<close>

lemma tenths_example:
  "find_break_even64 (map Finite [1, 2, 3]) (Finite (3602879701896397 / 2 ^ 55))
     (Finite (3602879701896397 / 2 ^ 55)) (Finite (5404319552844595 / 2 ^ 54)) =
     Inr \<lparr>break_even_idx64 = 1, break_even_requests64 = Finite 2,
          break_even_cost64 = Finite (3602879701896397 / 2 ^ 54)\<rparr> \<and>
   np_abs64 (np_sub64
     (cloud_cost64 (Finite (3602879701896397 / 2 ^ 55)) (map Finite [1, 2, 3]))
     (self_hosted_cost64 (Finite (3602879701896397 / 2 ^ 55))
        (Finite (5404319552844595 / 2 ^ 54)) (map Finite [1, 2, 3])))
     = map Finite [5404319552844596 / 2 ^ 54, 5404319552844595 / 2 ^ 54,
                   5404319552844596 / 2 ^ 54]"
  by (simp add: find_break_even64_def Let_def np_abs64_def np_sub64_def cloud_cost64_def
      self_hosted_cost64_def getitem64_def f64_sub_def tenths_rounding [simplified])

text \<open>
  On the samples 0 and \<open>2^1023\<close> with both rates 4 and offset 1 the two costs at the
  second sample overflow to infinity, their difference is NaN, and \<open>np.argmin\<close>
  returns that sample.
\<close>

lemma overflow_example:
  "find_break_even64 (map Finite [0, 2 ^ 1023]) (Finite 4) (Finite 4) (Finite 1) =
     Inr \<lparr>break_even_idx64 = 1, break_even_requests64 = Finite (2 ^ 1023),
          break_even_cost64 = PInf\<rparr> \<and>
   np_abs64 (np_sub64 (cloud_cost64 (Finite 4) (map Finite [0, 2 ^ 1023]))
     (self_hosted_cost64 (Finite 4) (Finite 1) (map Finite [0, 2 ^ 1023])))
     = [Finite 1, NaN]"
  by (simp add: eval64 round64_overflow [simplified])

section \<open>The sample that is returned\<close>

text \<open>
  Claim C1, as the script computes it. For every non-empty domain and every
  configuration the float64 computation returns a sample of the domain: its index is
  within bounds, the volume is the sample at that index and the cost is the computed cost
  of the linear curve there. With \<open>g\<close> the array of computed absolute differences
  \<open>|fl(v * rateA) - fl(offsetB + fl(v * rateB))|\<close>: if some entry of \<open>g\<close> is NaN, the
  sample returned is the first one whose entry is NaN; otherwise no entry of \<open>g\<close> is
  below the entry at the returned sample, every earlier entry is strictly above it (ties
  go to the first occurrence), and on a strictly increasing domain every sample of lower
  volume has a strictly larger computed difference. The cost of the affine curve at the
  sample is no part of the result, and the sample need not minimise the difference of
  the exact costs.
\<close>

theorem break_even64_first_minimum:
  assumes "requests \<noteq> []"
  shows "\<exists>r. find_break_even64 requests rateA rateB offsetB = Inr r \<and>
           break_even_idx64 r < length requests \<and>
           break_even_requests64 r = requests ! break_even_idx64 r \<and>
           break_even_cost64 r = cloud_cost64 rateA requests ! break_even_idx64 r \<and>
           (let g = np_abs64 (np_sub64 (cloud_cost64 rateA requests)
                                       (self_hosted_cost64 rateB offsetB requests));
                i = break_even_idx64 r
            in if NaN \<in> set g then g ! i = NaN \<and> (\<forall>j < i. g ! j \<noteq> NaN)
               else (\<forall>j < length requests. f64_le (g ! i) (g ! j)) \<and>
                    (\<forall>j < i. f64_less (g ! i) (g ! j)) \<and>
                    (sorted_wrt f64_less requests \<longrightarrow>
                       (\<forall>j < length requests.
                          f64_less (requests ! j) (requests ! i) \<longrightarrow>
                          f64_less (g ! i) (g ! j))))"
proof -
  from find_break_even64_char [OF assms, of rateA rateB offsetB] obtain i where
    fm: "first_min64 (map (gap64 rateA rateB offsetB) requests) i" and
    res: "find_break_even64 requests rateA rateB offsetB =
            Inr \<lparr>break_even_idx64 = i, break_even_requests64 = requests ! i,
                 break_even_cost64 = f64_mul (requests ! i) rateA\<rparr>" by blast
  let ?g = "map (gap64 rateA rateB offsetB) requests"
  from fm have lt: "i < length requests" by (simp add: first_min64_def)
  have cost: "cloud_cost64 rateA requests ! i = f64_mul (requests ! i) rateA"
    by (rule nth_costs64(1) [OF lt])
  have body: "if NaN \<in> set ?g then ?g ! i = NaN \<and> (\<forall>j < i. ?g ! j \<noteq> NaN)
               else (\<forall>j < length requests. f64_le (?g ! i) (?g ! j)) \<and>
                    (\<forall>j < i. f64_less (?g ! i) (?g ! j)) \<and>
                    (sorted_wrt f64_less requests \<longrightarrow>
                       (\<forall>j < length requests.
                          f64_less (requests ! j) (requests ! i) \<longrightarrow>
                          f64_less (?g ! i) (?g ! j)))"
  proof (cases "NaN \<in> set ?g")
    case True
    from fm have "if NaN \<in> set ?g then ?g ! i = NaN \<and> (\<forall>j < i. ?g ! j \<noteq> NaN)
      else (\<forall>j < length ?g. f64_le (?g ! i) (?g ! j)) \<and>
           (\<forall>j < i. f64_less (?g ! i) (?g ! j))"
      unfolding first_min64_def by (elim conjE)
    then have A: "?g ! i = NaN \<and> (\<forall>j < i. ?g ! j \<noteq> NaN)"
      by (subst (asm) if_P [OF True])
    show ?thesis by (subst if_P [OF True]) (rule A)
  next
    case False
    from fm have "if NaN \<in> set ?g then ?g ! i = NaN \<and> (\<forall>j < i. ?g ! j \<noteq> NaN)
      else (\<forall>j < length ?g. f64_le (?g ! i) (?g ! j)) \<and>
           (\<forall>j < i. f64_less (?g ! i) (?g ! j))"
      unfolding first_min64_def by (elim conjE)
    then have both: "(\<forall>j < length ?g. f64_le (?g ! i) (?g ! j)) \<and>
           (\<forall>j < i. f64_less (?g ! i) (?g ! j))"
      by (subst (asm) if_not_P [OF False])
    from both have "\<forall>j < length ?g. f64_le (?g ! i) (?g ! j)" by (elim conjE)
    then have le: "\<forall>j < length requests. f64_le (?g ! i) (?g ! j)"
      by (simp only: length_map)
    from both have less: "\<forall>j < i. f64_less (?g ! i) (?g ! j)" by (elim conjE)
    have low: "f64_less (?g ! i) (?g ! j)"
      if so: "sorted_wrt f64_less requests" and j: "j < length requests"
        and v: "f64_less (requests ! j) (requests ! i)" for j
    proof -
      have "j < i"
      proof (rule ccontr)
        assume "\<not> j < i"
        then consider "j = i" | "i < j" by linarith
        then show False
        proof cases
          case 1
          with v show False by (simp add: f64_less_irrefl)
        next
          case 2
          from sorted_wrt_nth_less [OF so 2 j] v show False
            by (simp add: f64_less_asym)
        qed
      qed
      with less show ?thesis by simp
    qed
    have B: "(\<forall>j < length requests. f64_le (?g ! i) (?g ! j)) \<and>
                    (\<forall>j < i. f64_less (?g ! i) (?g ! j)) \<and>
                    (sorted_wrt f64_less requests \<longrightarrow>
                       (\<forall>j < length requests.
                          f64_less (requests ! j) (requests ! i) \<longrightarrow>
                          f64_less (?g ! i) (?g ! j)))"
      using le less low by blast
    show ?thesis by (subst if_not_P [OF False]) (rule B)
  qed
  show ?thesis
  proof (intro exI conjI)
    show "find_break_even64 requests rateA rateB offsetB =
            Inr \<lparr>break_even_idx64 = i, break_even_requests64 = requests ! i,
                 break_even_cost64 = f64_mul (requests ! i) rateA\<rparr>" by (rule res)
    show "break_even_idx64 \<lparr>break_even_idx64 = i, break_even_requests64 = requests ! i,
                 break_even_cost64 = f64_mul (requests ! i) rateA\<rparr> < length requests"
      using lt by simp
    show "break_even_requests64 \<lparr>break_even_idx64 = i, break_even_requests64 = requests ! i,
                 break_even_cost64 = f64_mul (requests ! i) rateA\<rparr>
          = requests ! break_even_idx64 \<lparr>break_even_idx64 = i,
                 break_even_requests64 = requests ! i,
                 break_even_cost64 = f64_mul (requests ! i) rateA\<rparr>" by simp
    show "break_even_cost64 \<lparr>break_even_idx64 = i, break_even_requests64 = requests ! i,
                 break_even_cost64 = f64_mul (requests ! i) rateA\<rparr>
          = cloud_cost64 rateA requests ! break_even_idx64 \<lparr>break_even_idx64 = i,
                 break_even_requests64 = requests ! i,
                 break_even_cost64 = f64_mul (requests ! i) rateA\<rparr>"
      using cost by simp
    show "let g = np_abs64 (np_sub64 (cloud_cost64 rateA requests)
                                       (self_hosted_cost64 rateB offsetB requests));
                i = break_even_idx64 \<lparr>break_even_idx64 = i,
                 break_even_requests64 = requests ! i,
                 break_even_cost64 = f64_mul (requests ! i) rateA\<rparr>
            in if NaN \<in> set g then g ! i = NaN \<and> (\<forall>j < i. g ! j \<noteq> NaN)
               else (\<forall>j < length requests. f64_le (g ! i) (g ! j)) \<and>
                    (\<forall>j < i. f64_less (g ! i) (g ! j)) \<and>
                    (sorted_wrt f64_less requests \<longrightarrow>
                       (\<forall>j < length requests.
                          f64_less (requests ! j) (requests ! i) \<longrightarrow>
                          f64_less (g ! i) (g ! j)))"
      unfolding Let_def gaps64_eq break_even64.simps by (rule body)
  qed
qed

theorem break_even64_first_minimum_witness:
  "map Finite [0, 1, 2] \<noteq> [] \<and>
   (\<exists>r. find_break_even64 (map Finite [0, 1, 2]) (Finite 2) (Finite 1) (Finite 1) = Inr r \<and>
      break_even_idx64 r < length (map Finite [0, 1, 2]) \<and>
      break_even_requests64 r = map Finite [0, 1, 2] ! break_even_idx64 r \<and>
      break_even_cost64 r = cloud_cost64 (Finite 2) (map Finite [0, 1, 2]) ! break_even_idx64 r \<and>
      (let g = np_abs64 (np_sub64 (cloud_cost64 (Finite 2) (map Finite [0, 1, 2]))
                 (self_hosted_cost64 (Finite 1) (Finite 1) (map Finite [0, 1, 2])));
           i = break_even_idx64 r
       in if NaN \<in> set g then g ! i = NaN \<and> (\<forall>j < i. g ! j \<noteq> NaN)
          else (\<forall>j < length (map Finite [0, 1, 2]). f64_le (g ! i) (g ! j)) \<and>
               (\<forall>j < i. f64_less (g ! i) (g ! j)) \<and>
               (sorted_wrt f64_less (map Finite [0, 1, 2]) \<longrightarrow>
                  (\<forall>j < length (map Finite [0, 1, 2]).
                     f64_less (map Finite [0, 1, 2] ! j) (map Finite [0, 1, 2] ! i) \<longrightarrow>
                     f64_less (g ! i) (g ! j)))))"
proof -
  have h1: "map Finite [0, 1, 2] \<noteq> []" by simp
  show ?thesis
    by (intro conjI h1 break_even64_first_minimum [OF h1])
qed

text \<open>
  Claim C1 as written also has the computation return both costs at the sample. On the
  samples 0, 1, 2 with rates 2 and 1 and offset 3/2 (every operation is exact) the
  absolute differences are 3/2, 1/2, 1/2; the result is index 1, volume 1 and cost 2,
  the entry of \<open>cloud_cost\<close>. The entry of \<open>self_hosted_cost\<close> at that index is 5/2,
  which no field of the result holds.
\<close>

theorem break_even_cost_is_cloud_cost_only:
  "find_break_even [0, 1, 2] 2 1 (3 / 2) =
     Inr \<lparr>break_even_idx = 1, break_even_requests = 1, break_even_cost = 2\<rparr> \<and>
   cloud_cost 2 [0, 1, 2] ! 1 = 2 \<and>
   self_hosted_cost 1 (3 / 2) [0, 1, 2] ! 1 = 5 / 2"
  by (simp add: find_break_even_def Let_def np_abs_def np_sub_def cloud_cost_def
      self_hosted_cost_def getitem_def)

section \<open>Curves that do not cross on the samples\<close>




text \<open>
  Claim C3. With the constants of the script (rates 0.002 and 0.0002, initial investment
  10000, 1000 samples from 0 to 100000) the cloud cost is below the self-hosted cost at
  every sample, so the curves do not cross on the samples; the index of the least
  absolute difference is the last one, 999, at volume 100000 and cloud cost 200; and the
  least absolute difference is 9820 = 10000 - 0.0018 * 100000.
\<close>

theorem script_no_crossing:
  "length script_requests = 1000 \<and>
   (\<forall>i < 1000. cloud_cost (2 / 1000) script_requests ! i
                < self_hosted_cost (2 / 10000) 10000 script_requests ! i) \<and>
   script_break_even =
     Inr \<lparr>break_even_idx = 999, break_even_requests = 100000, break_even_cost = 200\<rparr> \<and>
   np_abs (np_sub (cloud_cost (2 / 1000) script_requests)
                  (self_hosted_cost (2 / 10000) 10000 script_requests)) ! 999 = 9820 \<and>
   (9820 :: real) = 10000 - (18 / 10000) * 100000"
proof -
  have below: "cloud_cost (2 / 1000) script_requests ! i
               < self_hosted_cost (2 / 10000) 10000 script_requests ! i" if "i < 1000" for i
  proof -
    have "script_requests ! i \<le> 100000" by (rule script_requests_le [OF that])
    then show ?thesis using that by (simp add: nth_costs length_script_requests)
  qed
  have "np_abs (np_sub (cloud_cost (2 / 1000) script_requests)
                  (self_hosted_cost (2 / 10000) 10000 script_requests)) ! 999 = 9820"
    using script_gap [of 999] by (simp add: gaps_eq length_script_requests)
  with below script_result length_script_requests show ?thesis by simp
qed

theorem script_no_crossing_witness:
  "(999 :: nat) < 1000 \<and>
   cloud_cost (2 / 1000) script_requests ! 999
     < self_hosted_cost (2 / 10000) 10000 script_requests ! 999"
proof -
  from script_no_crossing
  have "\<forall>i < 1000. cloud_cost (2 / 1000) script_requests ! i
                     < self_hosted_cost (2 / 10000) 10000 script_requests ! i"
    by (elim conjE)
  then show ?thesis by simp
qed

section \<open>Index bounds\<close>

text \<open>
  Claim C4. For every non-empty domain and every configuration the computation
  returns a result whose index lies within the bounds of the domain
  (\<open>0 \<le> break_even_idx < length requests\<close>), and the reported volume and cost are the
  entries of \<open>requests\<close> and of \<open>cloud_cost\<close> at that index.
\<close>

theorem break_even_idx_in_bounds:
  assumes "requests \<noteq> []"
  shows "\<exists>r. find_break_even requests rateA rateB offsetB = Inr r \<and>
           0 \<le> break_even_idx r \<and> break_even_idx r < length requests \<and>
           break_even_requests r = requests ! break_even_idx r \<and>
           break_even_cost r = cloud_cost rateA requests ! break_even_idx r"
proof -
  from find_break_even_char [OF assms, of rateA rateB offsetB] obtain i where
    fm: "first_min (map (gap rateA rateB offsetB) requests) i" and
    res: "find_break_even requests rateA rateB offsetB =
            Inr \<lparr>break_even_idx = i, break_even_requests = requests ! i,
                 break_even_cost = requests ! i * rateA\<rparr>" by blast
  from fm have lt: "i < length requests" by (simp add: first_min_def)
  then have "cloud_cost rateA requests ! i = requests ! i * rateA"
    by (simp add: cloud_cost_def)
  with res lt show ?thesis by simp
qed

theorem break_even_idx_in_bounds_witness:
  "[0, 1, 2] \<noteq> ([] :: real list) \<and>
   (\<exists>r. find_break_even [0, 1, 2] 2 1 (3 / 2) = Inr r \<and>
      0 \<le> break_even_idx r \<and> break_even_idx r < length [0, 1, 2 :: real] \<and>
      break_even_requests r = [0, 1, 2] ! break_even_idx r \<and>
      break_even_cost r = cloud_cost 2 [0, 1, 2] ! break_even_idx r)"
  using break_even_idx_in_bounds [of "[0, 1, 2]" 2 1 "3 / 2"] by simp

section \<open>Beyond the break-even sample\<close>




section \<open>The integer samples of the range from 0 to 10\<close>

text \<open>
  Claim C6. On the samples 0, 1, ..., 10 (which are \<open>linspace 0 10 11\<close>) with rates 1
  and 0.1 and offset 5 the computation returns volume 6, the sample nearest the exact
  crossing \<open>5 / (1 - 0.1)\<close>, about 5.56. When the range from 0 to 10 is sampled by
  \<open>n \<ge> 2\<close> evenly spaced samples, the absolute difference at the returned sample is
  at most \<open>4.5 / (n - 1)\<close>, and so it tends to zero as the resolution grows: it is
  below every positive bound for all large enough \<open>n\<close>.
\<close>

theorem integer_samples_break_even:
  "linspace 0 10 11 = [0, 1, 2, 3, 4, 5, 6, 7, 8, 9, 10] \<and>
   find_break_even (linspace 0 10 11) 1 (1 / 10) 5 =
     Inr \<lparr>break_even_idx = 6, break_even_requests = 6, break_even_cost = 6\<rparr> \<and>
   (\<forall>v \<in> set (linspace 0 10 11).
      v \<noteq> 6 \<longrightarrow> \<bar>6 - 5 / (1 - 1 / 10)\<bar> < \<bar>v - 5 / (1 - 1 / 10)\<bar>) \<and>
   (\<forall>n \<ge> 2. \<exists>r. find_break_even (linspace 0 10 n) 1 (1 / 10) 5 = Inr r \<and>
      gap 1 (1 / 10) 5 (break_even_requests r) \<le> 9 / (2 * real (n - 1))) \<and>
   (\<forall>e > 0. \<exists>N. \<forall>n \<ge> N. \<exists>r. find_break_even (linspace 0 10 n) 1 (1 / 10) 5 = Inr r \<and>
      gap 1 (1 / 10) 5 (break_even_requests r) < e)"
proof -
  have samples: "linspace 0 10 11 = [0, 1, 2, 3, 4, 5, 6, 7, 8, 9, 10]"
    by (simp add: linspace_def upt_rec)
  have nearest: "\<forall>v \<in> set (linspace 0 10 11).
      v \<noteq> 6 \<longrightarrow> \<bar>6 - 5 / (1 - 1 / 10)\<bar> < \<bar>v - 5 / (1 - 1 / 10)\<bar>"
    unfolding samples by simp
  have res: "find_break_even (linspace 0 10 11) 1 (1 / 10) 5 =
     Inr \<lparr>break_even_idx = 6, break_even_requests = 6, break_even_cost = 6\<rparr>"
    unfolding samples by (rule integers_result)
  from samples res nearest linspace_gap_bound linspace_gap_small
  show ?thesis by blast
qed

theorem integer_samples_break_even_witness:
  "(5 :: real) \<in> set (linspace 0 10 11) \<and> (5 :: real) \<noteq> 6 \<and>
   \<bar>6 - 5 / (1 - 1 / 10)\<bar> < \<bar>(5 :: real) - 5 / (1 - 1 / 10)\<bar> \<and>
   (2 :: nat) \<le> 11 \<and>
   (\<exists>r. find_break_even (linspace 0 10 11) 1 (1 / 10) 5 = Inr r \<and>
      gap 1 (1 / 10) 5 (break_even_requests r) \<le> 9 / (2 * real (11 - 1))) \<and>
   (0 :: real) < 1 \<and>
   (\<exists>N r. find_break_even (linspace 0 10 N) 1 (1 / 10) 5 = Inr r \<and>
      gap 1 (1 / 10) 5 (break_even_requests r) < 1)"
proof -
  note inst = integer_samples_break_even
  from inst have samples: "linspace 0 10 11 = [0, 1, 2, 3, 4, 5, 6, 7, 8, 9, 10 :: real]"
    by (elim conjE)
  have h1: "(5 :: real) \<in> set (linspace 0 10 11)" unfolding samples by simp
  have h2: "(5 :: real) \<noteq> 6" by simp
  from inst have "\<forall>v \<in> set (linspace 0 10 11).
      v \<noteq> 6 \<longrightarrow> \<bar>6 - 5 / (1 - 1 / 10)\<bar> < \<bar>v - 5 / (1 - 1 / 10)\<bar>"
    by (elim conjE)
  with h1 h2 have c1: "\<bar>6 - 5 / (1 - 1 / 10)\<bar> < \<bar>(5 :: real) - 5 / (1 - 1 / 10)\<bar>"
    by blast
  have h3: "(2 :: nat) \<le> 11" by simp
  from inst have "\<forall>n \<ge> 2. \<exists>r. find_break_even (linspace 0 10 n) 1 (1 / 10) 5 = Inr r \<and>
      gap 1 (1 / 10) 5 (break_even_requests r) \<le> 9 / (2 * real (n - 1))"
    by (elim conjE)
  with h3 have c2: "\<exists>r. find_break_even (linspace 0 10 11) 1 (1 / 10) 5 = Inr r \<and>
      gap 1 (1 / 10) 5 (break_even_requests r) \<le> 9 / (2 * real (11 - 1))"
    by blast
  have h4: "(0 :: real) < 1" by simp
  from inst have "\<forall>e > 0. \<exists>N. \<forall>n \<ge> N. \<exists>r.
      find_break_even (linspace 0 10 n) 1 (1 / 10) 5 = Inr r \<and>
      gap 1 (1 / 10) 5 (break_even_requests r) < e"
    by (elim conjE)
  with h4 obtain N where "\<forall>n \<ge> N. \<exists>r.
      find_break_even (linspace 0 10 n) 1 (1 / 10) 5 = Inr r \<and>
      gap 1 (1 / 10) 5 (break_even_requests r) < 1" by blast
  then have c3: "\<exists>N r. find_break_even (linspace 0 10 N) 1 (1 / 10) 5 = Inr r \<and>
      gap 1 (1 / 10) 5 (break_even_requests r) < 1" by blast
  show ?thesis by (intro conjI h1 h2 c1 h3 c2 h4 c3)
qed

section \<open>Equal rates\<close>




section \<open>A larger offset\<close>




text \<open>
  With rounding the order itself can fail: on the samples 0, 1, 2 with rates 2 and 1
  the offset 3 gives volume 2, and the larger offset \<open>2^60\<close>, which absorbs every
  product, gives volume 0.
\<close>

lemma absorbed_offset_reverses_order:
  "f64_less (Finite 3) (Finite (2 ^ 60)) \<and>
   find_break_even64 (map Finite [0, 1, 2]) (Finite 2) (Finite 1) (Finite 3) =
     Inr \<lparr>break_even_idx64 = 2, break_even_requests64 = Finite 2,
          break_even_cost64 = Finite 4\<rparr> \<and>
   find_break_even64 (map Finite [0, 1, 2]) (Finite 2) (Finite 1) (Finite (2 ^ 60)) =
     Inr \<lparr>break_even_idx64 = 0, break_even_requests64 = Finite 0,
          break_even_cost64 = Finite 0\<rparr> \<and>
   \<not> f64_le (Finite 2) (Finite 0)"
  by (simp add: eval64 round64_absorb [simplified])

section \<open>Totality and determinism\<close>

text \<open>
  Claim C9. On a non-empty domain the computation is total: for every configuration
  it returns a result and raises no error (neither the \<open>ValueError\<close> of \<open>np.argmin\<close>
  nor an \<open>IndexError\<close> of the two reads). On the empty domain there is no result:
  \<open>np.argmin\<close> raises \<open>ValueError\<close>.
\<close>

theorem find_break_even_total:
  "(requests \<noteq> [] \<longrightarrow> (\<exists>r. find_break_even requests rateA rateB offsetB = Inr r)) \<and>
   find_break_even [] rateA rateB offsetB = Inl ValueError"
proof
  show "requests \<noteq> [] \<longrightarrow> (\<exists>r. find_break_even requests rateA rateB offsetB = Inr r)"
  proof
    assume "requests \<noteq> []"
    from find_break_even_char [OF this, of rateA rateB offsetB]
    show "\<exists>r. find_break_even requests rateA rateB offsetB = Inr r" by blast
  qed
  show "find_break_even [] rateA rateB offsetB = Inl ValueError"
    by (simp add: find_break_even_def Let_def gaps_eq)
qed

theorem find_break_even_total_witness:
  "[0, 1, 2] \<noteq> ([] :: real list) \<and>
   (\<exists>r. find_break_even [0, 1, 2] 2 1 (3 / 2) = Inr r) \<and>
   find_break_even [] 2 1 (3 / 2) = Inl ValueError"
  using find_break_even_total [of "[0, 1, 2]" 2 1 "3 / 2"] by simp



end
